theory Spec2Isabelle
  imports Main
begin

section \<open>JavaScript values on an explicit heap\<close>

text \<open>
  The document that \<^verbatim>\<open>yaml.load\<close> returns is a graph of JavaScript objects and arrays that
  every stage mutates in place, and two of the stages guard their traversal by object
  identity. Objects and arrays therefore live in a heap; a value is a primitive or the
  address of a heap node. An object is the list of its own enumerable properties in
  enumeration order. Properties inherited from \<^verbatim>\<open>Object.prototype\<close> and the numeric-key
  reordering of JavaScript objects are outside this model.
\<close>

type_synonym addr = nat

datatype val = VUndef | VNull | VBool bool | VNum int | VStr string | VRef addr

datatype node = Obj "(string \<times> val) list" | Arr "val list"

type_synonym heap = "node list"

subsection \<open>Errors\<close>

text \<open>
  A run of the program ends by returning, by throwing, or not at all. \<open>PathNotFound\<close> is
  the \<^verbatim>\<open>Error\<close> thrown by the allow-list check, \<open>TypeError\<close> the exception of a property
  access on \<^verbatim>\<open>null\<close>/\<^verbatim>\<open>undefined\<close>, of a call of a missing method and of a strict-mode
  assignment to a primitive. \<open>OutOfFuel\<close> marks a recursion cut off by the step bound of the
  model, and \<open>Unmodelled\<close> an input shape this embedding does not cover (a property stored
  on an array, an array with holes).
\<close>

datatype error = PathNotFound string | TypeError | Unmodelled | OutOfFuel

definition bindE :: "error + 'a \<Rightarrow> ('a \<Rightarrow> error + 'b) \<Rightarrow> error + 'b" where
  "bindE m f = (case m of Inl e \<Rightarrow> Inl e | Inr x \<Rightarrow> f x)"


subsection \<open>Strings\<close>

definition startsWith :: "string \<Rightarrow> string \<Rightarrow> bool" where
  "startsWith s p = (take (length p) s = p)"

definition str_includes :: "string \<Rightarrow> char \<Rightarrow> bool" where
  "str_includes s c = (c \<in> set s)"

definition slice_from :: "nat \<Rightarrow> string \<Rightarrow> string" where
  "slice_from n s = drop n s"

text \<open>\<^verbatim>\<open>s.replace(pat, rep)\<close> with a string pattern: the first occurrence only.\<close>

fun replaceFirst :: "string \<Rightarrow> string \<Rightarrow> string \<Rightarrow> string" where
  "replaceFirst pat rep [] = (if pat = [] then rep else [])"
| "replaceFirst pat rep (c # cs) =
     (if startsWith (c # cs) pat then rep @ drop (length pat) (c # cs)
      else c # replaceFirst pat rep cs)"




definition isDigit :: "char \<Rightarrow> bool" where
  "isDigit c = ((48::nat) \<le> of_char c \<and> of_char c \<le> (57::nat))"


definition isUpper :: "char \<Rightarrow> bool" where
  "isUpper c = ((65::nat) \<le> of_char c \<and> of_char c \<le> (90::nat))"

text \<open>Case conversion on the ASCII letters; other characters are left as they are.\<close>

definition lowerChar :: "char \<Rightarrow> char" where
  "lowerChar c = (if isUpper c then char_of (of_char c + (32::nat)) else c)"


definition toLowerCase :: "string \<Rightarrow> string" where
  "toLowerCase s = map lowerChar s"


definition digitChar :: "nat \<Rightarrow> char" where
  "digitChar d = char_of ((48::nat) + d)"

text \<open>The decimal rendering of a number, as a template literal prints it.\<close>

fun showNat :: "nat \<Rightarrow> string" where
  "showNat n = (if n < 10 then [digitChar n] else showNat (n div 10) @ [digitChar (n mod 10)])"

declare showNat.simps [simp del]

definition digitVal :: "char \<Rightarrow> nat" where
  "digitVal c = of_char c - (48::nat)"

text \<open>
  A property key that is an array index: a canonical decimal numeral (no leading zero).
\<close>

definition indexOfKey :: "string \<Rightarrow> nat option" where
  "indexOfKey k =
     (if k \<noteq> [] \<and> list_all isDigit k \<and> (hd k \<noteq> CHR ''0'' \<or> k = ''0'')
      then Some (foldl (\<lambda>n c. 10 * n + digitVal c) 0 k) else None)"

subsection \<open>Reading and writing the heap\<close>

definition nodeAt :: "heap \<Rightarrow> addr \<Rightarrow> node option" where
  "nodeAt h a = (if a < length h then Some (h ! a) else None)"

definition alloc :: "heap \<Rightarrow> node \<Rightarrow> addr \<times> heap" where
  "alloc h n = (length h, h @ [n])"

text \<open>Truthiness, and \<^verbatim>\<open>typeof v === 'object'\<close> (which \<^verbatim>\<open>null\<close> satisfies).\<close>

fun truthy :: "val \<Rightarrow> bool" where
  "truthy VUndef = False"
| "truthy VNull = False"
| "truthy (VBool b) = b"
| "truthy (VNum n) = (n \<noteq> 0)"
| "truthy (VStr s) = (s \<noteq> [])"
| "truthy (VRef a) = True"



definition nullish :: "val \<Rightarrow> bool" where
  "nullish v = (v = VUndef \<or> v = VNull)"

definition isArray :: "heap \<Rightarrow> val \<Rightarrow> bool" where
  "isArray h v = (case v of VRef a \<Rightarrow> (case nodeAt h a of Some (Arr vs) \<Rightarrow> True | _ \<Rightarrow> False)
                  | _ \<Rightarrow> False)"

definition isObj :: "heap \<Rightarrow> val \<Rightarrow> bool" where
  "isObj h v = (case v of VRef a \<Rightarrow> (case nodeAt h a of Some (Obj kvs) \<Rightarrow> True | _ \<Rightarrow> False)
                | _ \<Rightarrow> False)"

definition lookupKey :: "(string \<times> val) list \<Rightarrow> string \<Rightarrow> val" where
  "lookupKey kvs k = (case map_of kvs k of Some v \<Rightarrow> v | None \<Rightarrow> VUndef)"

definition indexed :: "'a list \<Rightarrow> (string \<times> 'a) list" where
  "indexed xs = zip (map showNat [0..<length xs]) xs"

text \<open>
  \<^verbatim>\<open>v[k]\<close> on a receiver that is not \<^verbatim>\<open>null\<close>/\<^verbatim>\<open>undefined\<close>; on those two the access throws,
  which \<open>getP\<close> adds.
\<close>

definition jsGet :: "heap \<Rightarrow> val \<Rightarrow> string \<Rightarrow> val" where
  "jsGet h v k =
     (case v of
        VRef a \<Rightarrow>
          (case nodeAt h a of
             Some (Obj kvs) \<Rightarrow> lookupKey kvs k
           | Some (Arr vs) \<Rightarrow>
               (if k = ''length'' then VNum (int (length vs))
                else (case indexOfKey k of
                        Some i \<Rightarrow> (if i < length vs then vs ! i else VUndef)
                      | None \<Rightarrow> VUndef))
           | None \<Rightarrow> VUndef)
      | VStr s \<Rightarrow>
          (if k = ''length'' then VNum (int (length s))
           else (case indexOfKey k of
                   Some i \<Rightarrow> (if i < length s then VStr [s ! i] else VUndef)
                 | None \<Rightarrow> VUndef))
      | _ \<Rightarrow> VUndef)"

definition getP :: "heap \<Rightarrow> val \<Rightarrow> string \<Rightarrow> error + val" where
  "getP h v k = (if nullish v then Inl TypeError else Inr (jsGet h v k))"

text \<open>Optional chaining \<^verbatim>\<open>v?.k\<close>.\<close>

definition getOpt :: "heap \<Rightarrow> val \<Rightarrow> string \<Rightarrow> val" where
  "getOpt h v k = (if nullish v then VUndef else jsGet h v k)"

text \<open>\<^verbatim>\<open>Object.entries\<close>, \<^verbatim>\<open>Object.keys\<close> and \<^verbatim>\<open>Object.values\<close> of a value that is not nullish.\<close>

definition entries :: "heap \<Rightarrow> val \<Rightarrow> (string \<times> val) list" where
  "entries h v =
     (case v of
        VRef a \<Rightarrow> (case nodeAt h a of Some (Obj kvs) \<Rightarrow> kvs | Some (Arr vs) \<Rightarrow> indexed vs
                   | None \<Rightarrow> [])
      | VStr s \<Rightarrow> indexed (map (\<lambda>c. VStr [c]) s)
      | _ \<Rightarrow> [])"

definition keys :: "heap \<Rightarrow> val \<Rightarrow> string list" where
  "keys h v = map fst (entries h v)"

definition vals :: "heap \<Rightarrow> val \<Rightarrow> val list" where
  "vals h v = map snd (entries h v)"

text \<open>
  \<^verbatim>\<open>o[k] = v\<close> on an object: an existing key keeps its place, a new key goes last. On an
  array only an index in range is written.
\<close>

fun updKey :: "(string \<times> val) list \<Rightarrow> string \<Rightarrow> val \<Rightarrow> (string \<times> val) list" where
  "updKey [] k v = [(k, v)]"
| "updKey ((k', v') # kvs) k v = (if k' = k then (k, v) # kvs else (k', v') # updKey kvs k v)"

definition setP :: "heap \<Rightarrow> addr \<Rightarrow> string \<Rightarrow> val \<Rightarrow> heap" where
  "setP h a k v =
     (case nodeAt h a of
        Some (Obj kvs) \<Rightarrow> h[a := Obj (updKey kvs k v)]
      | Some (Arr vs) \<Rightarrow>
          (case indexOfKey k of
             Some i \<Rightarrow> (if i < length vs then h[a := Arr (vs[i := v])] else h)
           | None \<Rightarrow> h)
      | None \<Rightarrow> h)"

text \<open>\<^verbatim>\<open>delete o[k]\<close> on an object.\<close>

definition delP :: "heap \<Rightarrow> addr \<Rightarrow> string \<Rightarrow> heap" where
  "delP h a k =
     (case nodeAt h a of
        Some (Obj kvs) \<Rightarrow> h[a := Obj (filter (\<lambda>kv. fst kv \<noteq> k) kvs)]
      | _ \<Rightarrow> h)"

subsection \<open>Documents as trees\<close>

text \<open>
  What the parser hands over when the file has no anchors: a tree, laid out on the heap
  with every object and array at an address of its own.
\<close>

datatype json = JNull | JBool bool | JNum int | JStr string | JArr "json list"
  | JObj "(string \<times> json) list"

fun load :: "json \<Rightarrow> heap \<Rightarrow> val \<times> heap"
  and loadList :: "json list \<Rightarrow> heap \<Rightarrow> val list \<times> heap"
  and loadFields :: "(string \<times> json) list \<Rightarrow> heap \<Rightarrow> (string \<times> val) list \<times> heap" where
  "load JNull h = (VNull, h)"
| "load (JBool b) h = (VBool b, h)"
| "load (JNum n) h = (VNum n, h)"
| "load (JStr s) h = (VStr s, h)"
| "load (JArr js) h =
     (let (vs, h1) = loadList js h; (a, h2) = alloc h1 (Arr vs) in (VRef a, h2))"
| "load (JObj fs) h =
     (let (kvs, h1) = loadFields fs h; (a, h2) = alloc h1 (Obj kvs) in (VRef a, h2))"
| "loadList [] h = ([], h)"
| "loadList (j # js) h =
     (let (v, h1) = load j h; (vs, h2) = loadList js h1 in (v # vs, h2))"
| "loadFields [] h = ([], h)"
| "loadFields ((k, j) # fs) h =
     (let (v, h1) = load j h; (kvs, h2) = loadFields fs h1 in ((k, v) # kvs, h2))"

text \<open>Reading a value back as a tree, to a bounded depth (a cyclic graph has no tree).\<close>

fun dump :: "nat \<Rightarrow> heap \<Rightarrow> val \<Rightarrow> json option" where
  "dump n h VUndef = Some JNull"
| "dump n h VNull = Some JNull"
| "dump n h (VBool b) = Some (JBool b)"
| "dump n h (VNum i) = Some (JNum i)"
| "dump n h (VStr s) = Some (JStr s)"
| "dump 0 h (VRef a) = None"
| "dump (Suc n) h (VRef a) =
     (case nodeAt h a of
        None \<Rightarrow> None
      | Some (Arr vs) \<Rightarrow>
          (let js = map (dump n h) vs
           in if list_all (\<lambda>j. j \<noteq> None) js then Some (JArr (map the js)) else None)
      | Some (Obj kvs) \<Rightarrow>
          (let js = map (\<lambda>kv. dump n h (snd kv)) kvs
           in if list_all (\<lambda>j. j \<noteq> None) js
              then Some (JObj (zip (map fst kvs) (map the js))) else None))"

section \<open>The canonicality test\<close>

text \<open>\<^verbatim>\<open>shouldHoistRef(ref)\<close>, lines 344-363.\<close>

fun shouldHoistRef :: "val \<Rightarrow> bool" where
  "shouldHoistRef (VStr ref) =
     (if \<not> startsWith ref ''#/'' then False
      else if startsWith ref ''#/$defs/'' then False
      else if startsWith ref ''#/components/schemas/''
        then str_includes (slice_from (length ''#/components/schemas/'') ref) (CHR ''/'')
      else if startsWith ref ''#/components/'' then False
      else True)"
| "shouldHoistRef _ = False"

text \<open>
  The canonicality test as the specification words it. A reference is exempt from hoisting
  when it starts with \<^verbatim>\<open>#/$defs/\<close>, when it has the shape \<^verbatim>\<open>#/components/<kind>/...\<close> with a
  kind other than \<^verbatim>\<open>schemas\<close>, or when it is \<^verbatim>\<open>#/components/schemas/<name>\<close> with no further
  segment.
\<close>

definition spec_nonschema_collection :: "string \<Rightarrow> bool" where
  "spec_nonschema_collection ref =
     (startsWith ref ''#/components/'' \<and>
      (let rest = slice_from (length ''#/components/'') ref;
           kind = takeWhile (\<lambda>c. c \<noteq> CHR ''/'') rest
       in kind \<noteq> ''schemas'' \<and> length kind < length rest))"

definition spec_schema_component :: "string \<Rightarrow> bool" where
  "spec_schema_component ref =
     (startsWith ref ''#/components/schemas/'' \<and>
      \<not> str_includes (slice_from (length ''#/components/schemas/'') ref) (CHR ''/''))"

definition spec_exempt :: "string \<Rightarrow> bool" where
  "spec_exempt ref =
     (startsWith ref ''#/$defs/'' \<or> spec_nonschema_collection ref \<or> spec_schema_component ref)"

definition spec_hoisted :: "string \<Rightarrow> bool" where
  "spec_hoisted ref = (startsWith ref ''#/'' \<and> \<not> spec_exempt ref)"

section \<open>The endpoint filter\<close>

text \<open>
  One record of the allow-list (\<^verbatim>\<open>endpoints.json\<close>). \<open>ep_method\<close> is the record's \<^verbatim>\<open>method\<close>,
  \<open>disabled\<close> the truthiness of its \<^verbatim>\<open>disabled\<close> field.
\<close>

record endpoint =
  pathPattern :: string
  ep_method :: string
  toolName :: val
  disabled :: bool

text \<open>Line 6: the records that are not disabled.\<close>

definition enabledEndpoints :: "endpoint list \<Rightarrow> endpoint list" where
  "enabledEndpoints allEndpoints = filter (\<lambda>endpoint. \<not> disabled endpoint) allEndpoints"


text \<open>
  Lines 30-39, the callback of \<^verbatim>\<open>operation.parameters.map\<close>: a parameter that is a reference
  to a component parameter is replaced by a shallow copy of that component.
\<close>

definition inlineParameter :: "val \<Rightarrow> val \<Rightarrow> heap \<Rightarrow> error + (val \<times> heap)" where
  "inlineParameter spec param h =
     bindE (getP h param ''$ref'') (\<lambda>r.
       if \<not> truthy r then Inr (param, h)
       else (case r of
               VStr s \<Rightarrow>
                 if startsWith s ''#/components/parameters/'' then
                   (let paramName = replaceFirst ''#/components/parameters/'' [] s;
                        resolvedParam =
                          getOpt h (getOpt h (jsGet h spec ''components'') ''parameters'') paramName
                    in if truthy resolvedParam
                       then (let (a, h') = alloc h (Obj (entries h resolvedParam))
                             in Inr (VRef a, h'))
                       else Inr (param, h))
                 else Inr (param, h)
             | _ \<Rightarrow> Inl TypeError))"

fun mapParameters :: "val \<Rightarrow> val list \<Rightarrow> heap \<Rightarrow> error + (val list \<times> heap)" where
  "mapParameters spec [] h = Inr ([], h)"
| "mapParameters spec (param # params) h =
     bindE (inlineParameter spec param h) (\<lambda>(v, h1).
     bindE (mapParameters spec params h1) (\<lambda>(vs, h2). Inr (v # vs, h2)))"

text \<open>Lines 25-40: an allow-listed operation is renamed and its parameters are inlined.\<close>

definition adoptOperation :: "val \<Rightarrow> endpoint \<Rightarrow> val \<Rightarrow> heap \<Rightarrow> error + heap" where
  "adoptOperation spec eo operation h =
     (case operation of
        VRef a \<Rightarrow>
          if \<not> isObj h operation then Inl Unmodelled
          else
            (let h1 = setP h a ''operationId'' (toolName eo);
                 h2 = (if \<not> truthy (jsGet h1 operation ''description'')
                          \<and> truthy (jsGet h1 operation ''summary'')
                       then setP h1 a ''description'' (jsGet h1 operation ''summary'') else h1);
                 ps = jsGet h2 operation ''parameters''
             in if \<not> truthy ps then Inr h2
                else if \<not> isArray h2 ps then Inl TypeError
                else bindE (mapParameters spec (vals h2 ps) h2) (\<lambda>(vs, h3).
                       (let (b, h4) = alloc h3 (Arr vs)
                        in Inr (setP h4 a ''parameters'' (VRef b)))))
      | _ \<Rightarrow> Inl TypeError)"

text \<open>Lines 22-44: the entries of one surviving path item, taken when the loop starts.\<close>

fun filterMethods ::
  "val \<Rightarrow> endpoint list \<Rightarrow> addr \<Rightarrow> (string \<times> val) list \<Rightarrow> heap \<Rightarrow> error + heap" where
  "filterMethods spec e item [] h = Inr h"
| "filterMethods spec e item ((m, operation) # rest) h =
     (case find (\<lambda>ep. toLowerCase (ep_method ep) = m) e of
        Some eo \<Rightarrow> bindE (adoptOperation spec eo operation h) (filterMethods spec e item rest)
      | None \<Rightarrow> filterMethods spec e item rest (delP h item m))"

definition filterPathItem :: "val \<Rightarrow> endpoint list \<Rightarrow> val \<Rightarrow> heap \<Rightarrow> error + heap" where
  "filterPathItem spec e v h =
     (case v of
        VRef a \<Rightarrow> if isObj h v then filterMethods spec e a (entries h v) h else Inl Unmodelled
      | VStr s \<Rightarrow> if s = [] then Inr h else Inl TypeError
      | VUndef \<Rightarrow> Inl TypeError
      | VNull \<Rightarrow> Inl TypeError
      | _ \<Rightarrow> Inr h)"

text \<open>Line 20, \<^verbatim>\<open>delete openApiSpec.paths[key]\<close>; the paths map is read again at each deletion.\<close>

definition deletePath :: "val \<Rightarrow> string \<Rightarrow> heap \<Rightarrow> error + heap" where
  "deletePath spec key h =
     bindE (getP h spec ''paths'') (\<lambda>paths.
       case paths of
         VRef p \<Rightarrow> if isObj h paths then Inr (delP h p key) else Inl Unmodelled
       | VUndef \<Rightarrow> Inl TypeError
       | VNull \<Rightarrow> Inl TypeError
       | _ \<Rightarrow> Inl Unmodelled)"

text \<open>Lines 17-46: the entries of the paths map, taken when the loop starts.\<close>

fun filterPaths :: "val \<Rightarrow> endpoint list \<Rightarrow> (string \<times> val) list \<Rightarrow> heap \<Rightarrow> error + heap" where
  "filterPaths spec endpoints [] h = Inr h"
| "filterPaths spec endpoints ((key, v) # rest) h =
     (let e = filter (\<lambda>ep. pathPattern ep = key) endpoints
      in if e = [] then bindE (deletePath spec key h) (filterPaths spec endpoints rest)
         else bindE (filterPathItem spec e v h) (filterPaths spec endpoints rest))"

definition endpointFilter :: "val \<Rightarrow> endpoint list \<Rightarrow> heap \<Rightarrow> error + heap" where
  "endpointFilter spec endpoints h =
     bindE (getP h spec ''paths'') (\<lambda>paths.
       if nullish paths then Inl TypeError
       else if \<not> isObj h paths then Inl Unmodelled
       else filterPaths spec endpoints (entries h paths) h)"

text \<open>
  The addresses the filter reads as path items and as operations. In a document that is a
  tree they are apart from each other, from the paths map and from the root.
\<close>

definition pathItemAddrs :: "heap \<Rightarrow> val \<Rightarrow> addr list" where
  "pathItemAddrs h spec =
     concat (map (\<lambda>kv. case snd kv of VRef a \<Rightarrow> [a] | _ \<Rightarrow> [])
       (entries h (jsGet h spec ''paths'')))"

definition operationAddrs :: "heap \<Rightarrow> val \<Rightarrow> addr list" where
  "operationAddrs h spec =
     concat (map (\<lambda>a. concat (map (\<lambda>kv. case snd kv of VRef b \<Rightarrow> [b] | _ \<Rightarrow> [])
       (entries h (VRef a)))) (pathItemAddrs h spec))"

definition protectedAddrs :: "heap \<Rightarrow> val \<Rightarrow> addr set" where
  "protectedAddrs h spec =
     set (pathItemAddrs h spec)
       \<union> (case spec of VRef r \<Rightarrow> {r} | _ \<Rightarrow> {})
       \<union> (case jsGet h spec ''paths'' of VRef p \<Rightarrow> {p} | _ \<Rightarrow> {})"

definition operationsApart :: "heap \<Rightarrow> val \<Rightarrow> bool" where
  "operationsApart h spec =
     (set (operationAddrs h spec) \<inter> protectedAddrs h spec = {}
      \<and> list_all (\<lambda>a. a < length h) (pathItemAddrs h spec))"

subsection \<open>Nodes that only lose keys\<close>

text \<open>
  \<open>dropKeys K n\<close> is the node \<open>n\<close> without the keys in \<open>K\<close>; \<open>frame A h h'\<close> says that from
  \<open>h\<close> to \<open>h'\<close> the heap has grown and each node at an address in \<open>A\<close> has at most lost keys.
\<close>

fun dropKeys :: "string set \<Rightarrow> node \<Rightarrow> node" where
  "dropKeys K (Obj kvs) = Obj (filter (\<lambda>kv. fst kv \<notin> K) kvs)"
| "dropKeys K (Arr vs) = Arr vs"

definition shrunk :: "node \<Rightarrow> node \<Rightarrow> bool" where
  "shrunk n n' = (\<exists>K. n' = dropKeys K n)"

definition frame :: "addr set \<Rightarrow> heap \<Rightarrow> heap \<Rightarrow> bool" where
  "frame A h h' = (length h \<le> length h' \<and> (\<forall>b\<in>A. b < length h \<longrightarrow> shrunk (h ! b) (h' ! b)))"

section \<open>The structural cleaner\<close>

subsection \<open>Template literals and trimming\<close>

definition isSpace :: "char \<Rightarrow> bool" where
  "isSpace c = (of_char c = (32::nat) \<or> ((9::nat) \<le> of_char c \<and> of_char c \<le> (13::nat)))"

text \<open>\<^verbatim>\<open>s.trim()\<close>, on the ASCII white space.\<close>

definition trim :: "string \<Rightarrow> string" where
  "trim s = rev (dropWhile isSpace (rev (dropWhile isSpace s)))"

text \<open>
  The text a template literal prints for a value. Objects and arrays are left out: no
  description of a schema is one.
\<close>

fun templateText :: "val \<Rightarrow> error + string" where
  "templateText (VStr s) = Inr s"
| "templateText (VBool b) = Inr (if b then ''true'' else ''false'')"
| "templateText (VNum n) = Inr (if n < 0 then CHR ''-'' # showNat (nat (- n)) else showNat (nat n))"
| "templateText VUndef = Inr ''undefined''"
| "templateText VNull = Inr ''null''"
| "templateText (VRef a) = Inl Unmodelled"

text \<open>\<^verbatim>\<open>`${schema.description || ''}`\<close>\<close>

definition descriptionText :: "heap \<Rightarrow> val \<Rightarrow> error + string" where
  "descriptionText h schema =
     (let d = jsGet h schema ''description''
      in if truthy d then templateText d else Inr [])"

subsection \<open>Unions\<close>











subsection \<open>Property reduction\<close>

text \<open>\<^verbatim>\<open>shouldReduceProperties(schema)\<close>, lines 672-676.\<close>

definition shouldReduceProperties :: "heap \<Rightarrow> val \<Rightarrow> bool" where
  "shouldReduceProperties h schema =
     (let properties = jsGet h schema ''properties''
      in if \<not> truthy properties then False
         else length (keys h properties) > 25)"

definition priorityProperties :: "string list" where
  "priorityProperties =
     [''id'', ''name'', ''displayName'', ''description'', ''createdDateTime'',
      ''lastModifiedDateTime'', ''status'', ''state'', ''type'', ''value'', ''email'',
      ''userPrincipalName'', ''title'', ''content'', ''body'', ''subject'', ''message'',
      ''attachments'', ''error'', ''code'', ''details'', ''url'', ''href'', ''path'',
      ''method'', ''enabled'']"

text \<open>\<^verbatim>\<open>xs.slice(0, n)\<close>: a negative \<open>n\<close> counts from the end.\<close>

definition slice0 :: "int \<Rightarrow> 'a list \<Rightarrow> 'a list" where
  "slice0 n xs = (if 0 \<le> n then take (nat n) xs else take (length xs - nat (- n)) xs)"

text \<open>
  The object \<^verbatim>\<open>keptProperties\<close> as it is filled, lines 714-728: first the priority keys whose
  property is truthy, then the first \<^verbatim>\<open>remainingSlots\<close> of the keys that are not kept yet.
\<close>

definition keepPriority :: "heap \<Rightarrow> val \<Rightarrow> (string \<times> val) list" where
  "keepPriority h properties =
     foldl (\<lambda>kept key. if truthy (jsGet h properties key)
                         then updKey kept key (jsGet h properties key) else kept)
       [] priorityProperties"

definition keptProperties :: "heap \<Rightarrow> val \<Rightarrow> (string \<times> val) list" where
  "keptProperties h properties =
     (let kept = keepPriority h properties;
          remainingSlots = 25 - int (length kept);
          otherKeys = filter (\<lambda>key. \<not> truthy (lookupKey kept key)) (keys h properties)
      in foldl (\<lambda>kept key. updKey kept key (jsGet h properties key)) kept
           (slice0 remainingSlots otherKeys))"

text \<open>\<^verbatim>\<open>reduceProperties(schema, schemaName)\<close>, lines 678-736, on a schema object.\<close>

definition reduceProperties :: "addr \<Rightarrow> heap \<Rightarrow> error + heap" where
  "reduceProperties a h =
     (let properties = jsGet h (VRef a) ''properties'';
          propertyCount = length (keys h properties)
      in if propertyCount > 25 then
           (let (k, h1) = alloc h (Obj (keptProperties h properties));
                h2 = setP h1 a ''properties'' (VRef k);
                h3 = setP h2 a ''additionalProperties'' (VBool True)
            in bindE (descriptionText h3 (VRef a)) (\<lambda>d.
                 Inr (setP h3 a ''description''
                        (VStr (trim (d @ '' [Note: Simplified from '' @ showNat propertyCount
                                       @ '' properties to 25 most common ones]''))))))
         else Inr h)"

section \<open>The reference normalizer\<close>

subsection \<open>JSON pointers\<close>




subsection \<open>Component names\<close>



















subsection \<open>Deep copies\<close>




subsection \<open>The state of one normalizer run\<close>

text \<open>
  The heap, and the four variables of \<^verbatim>\<open>normalizeSchemaRefs\<close> that its closures share
  (lines 76-79): the pointer-to-component map, the names in use, the schema nodes visited
  (by identity) and the number of hoists.
\<close>

record nstate =
  st_heap :: heap
  pointerToComponent :: "(string \<times> string) list"
  existingNames :: "string list"
  visitedSchemas :: "addr set"
  hoistedCount :: nat






subsection \<open>The traversal\<close>













subsection \<open>Entry points of the traversal\<close>



























subsection \<open>Notions used to state the properties of the normalizer\<close>




text \<open>
  \<open>preserves Q R f\<close>: a step \<open>f\<close> started in a state with \<open>Q\<close> ends, when it returns, in a state
  with \<open>Q\<close> that is related to the start by \<open>R\<close>. \<open>orderly R\<close>: \<open>R\<close> is reflexive and transitive.
\<close>

definition preserves ::
  "(nstate \<Rightarrow> bool) \<Rightarrow> (nstate \<Rightarrow> nstate \<Rightarrow> bool) \<Rightarrow> (nstate \<Rightarrow> error + nstate) \<Rightarrow> bool" where
  "preserves Q R f = (\<forall>s s'. Q s \<longrightarrow> f s = Inr s' \<longrightarrow> Q s' \<and> R s s')"

definition orderly :: "(nstate \<Rightarrow> nstate \<Rightarrow> bool) \<Rightarrow> bool" where
  "orderly R = ((\<forall>s. R s s) \<and> (\<forall>a b c. R a b \<longrightarrow> R b c \<longrightarrow> R a c))"


















section \<open>The rest of the structural cleaner\<close>







subsection \<open>Composition\<close>







subsection \<open>Nested properties\<close>





section \<open>The reachability pruner\<close>

subsection \<open>Collecting references\<close>













subsection \<open>The closure\<close>




subsection \<open>Sweep and repair\<close>













section \<open>The pipeline\<close>




section \<open>Example documents\<close>

text \<open>
  A document with two paths, and an allow-list that names one operation of each; the
  record for the second path is disabled.
\<close>

definition filterDoc :: json where
  "filterDoc = JObj [(''paths'', JObj [
      (''/test'', JObj [(''parameters'', JArr []), (''summary'', JStr ''shared''),
                        (''get'', JObj [(''summary'', JStr ''s'')]), (''post'', JObj [])]),
      (''/other'', JObj [(''get'', JObj [])])])]"

definition filterEndpoints :: "endpoint list" where
  "filterEndpoints =
     [\<lparr>pathPattern = ''/test'', ep_method = ''GET'', toolName = VStr ''getTest'',
       disabled = False\<rparr>,
      \<lparr>pathPattern = ''/other'', ep_method = ''get'', toolName = VStr ''getOther'',
       disabled = True\<rparr>]"


definition filterRoot :: val where
  "filterRoot = fst (load filterDoc [])"

definition filterHeap :: heap where
  "filterHeap = snd (load filterDoc [])"

definition filterResult :: heap where
  "filterResult =
     [Arr [],
      Obj [(''summary'', VStr ''s''), (''operationId'', VStr ''getTest''),
           (''description'', VStr ''s'')],
      Obj [], Obj [(''get'', VRef 1)], Obj [], Obj [(''get'', VRef 4)],
      Obj [(''/test'', VRef 3)], Obj [(''paths'', VRef 6)]]"







text \<open>
  A schema whose properties are exactly the names of the priority list, each a string
  schema. The properties are at the addresses 0 to 25, their map at 26, the schema at 27.
\<close>

definition allPriorityDoc :: json where
  "allPriorityDoc =
     JObj [(''properties'',
            JObj (map (\<lambda>k. (k, JObj [(''type'', JStr ''string'')])) priorityProperties))]"

definition allPriorityHeap :: heap where
  "allPriorityHeap = snd (load allPriorityDoc [])"















section \<open>Properties of the canonicality test\<close>

text \<open>
  C2, as amended. For every string \<open>ref\<close>, \<open>shouldHoistRef\<close> hoists exactly the local
  pointers (those starting with \<^verbatim>\<open>#/\<close>) that do not start with \<^verbatim>\<open>#/$defs/\<close>, that are not under
  \<^verbatim>\<open>#/components/\<close> outside \<^verbatim>\<open>#/components/schemas/\<close>, and that are not a
  \<^verbatim>\<open>#/components/schemas/<name>\<close> without a further segment. The middle exemption is the
  whole \<^verbatim>\<open>#/components/\<close> prefix: it covers the non-schema collections and also the pointers
  \<^verbatim>\<open>#/components/<kind>\<close> that name a collection itself, \<^verbatim>\<open>#/components/schemas\<close> included.
\<close>

theorem shouldHoistRef_decision:
  "shouldHoistRef (VStr ref) =
     (startsWith ref ''#/'' \<and> \<not> startsWith ref ''#/$defs/'' \<and>
      \<not> (startsWith ref ''#/components/'' \<and> \<not> startsWith ref ''#/components/schemas/'') \<and>
      \<not> spec_schema_component ref)"
  by (auto simp: spec_schema_component_def)

text \<open>
  C2 as stated fails: \<^verbatim>\<open>#/components/schemas\<close> is a local pointer that meets none of the three
  exemptions of the specification (it is not under \<^verbatim>\<open>#/$defs/\<close>, its kind is \<^verbatim>\<open>schemas\<close>, and it
  is not \<^verbatim>\<open>#/components/schemas/<name>\<close>), so the specification hoists it; the code does not.
\<close>

theorem shouldHoistRef_spec_counterexample:
  "spec_hoisted ''#/components/schemas'' \<and> \<not> shouldHoistRef (VStr ''#/components/schemas'')"
  by (simp add: startsWith_def str_includes_def slice_from_def spec_hoisted_def spec_exempt_def
      spec_nonschema_collection_def spec_schema_component_def)

section \<open>Basic facts about the heap operations\<close>

lemma bindE_Inr [simp]: "bindE (Inr x) f = f x" by (simp add: bindE_def)
lemma bindE_Inl [simp]: "bindE (Inl e) f = Inl e" by (simp add: bindE_def)
lemma bindE_eq_Inr: "bindE m f = Inr y \<longleftrightarrow> (\<exists>x. m = Inr x \<and> f x = Inr y)"
  by (cases m) auto

lemma getP_eq_Inr: "getP h v k = Inr x \<longleftrightarrow> (\<not> nullish v \<and> x = jsGet h v k)"
  by (auto simp: getP_def)

lemma dropKeys_empty [simp]: "dropKeys {} n = n" by (cases n) auto
lemma dropKeys_dropKeys: "dropKeys K (dropKeys L n) = dropKeys (K \<union> L) n"
  by (cases n) (auto intro: filter_cong)
lemma shrunk_refl [simp]: "shrunk n n" unfolding shrunk_def by (rule exI[of _ "{}"]) simp
lemma shrunk_trans: "shrunk a b \<Longrightarrow> shrunk b c \<Longrightarrow> shrunk a c"
  unfolding shrunk_def by (auto simp: dropKeys_dropKeys)
lemma frame_refl [simp]: "frame A h h" by (simp add: frame_def)
lemma frame_trans: "frame A h h1 \<Longrightarrow> frame A h1 h2 \<Longrightarrow> frame A h h2"
  unfolding frame_def by (auto intro: shrunk_trans)

lemma frame_same: "length h \<le> length h' \<Longrightarrow> (\<forall>b\<in>A. b < length h \<longrightarrow> h' ! b = h ! b) \<Longrightarrow> frame A h h'"
  by (simp add: frame_def)

lemma alloc_frame: "alloc h n = (a, h') \<Longrightarrow> length h \<le> length h' \<and> (\<forall>b < length h. h' ! b = h ! b)"
  by (auto simp: alloc_def nth_append)

lemma setP_length [simp]: "length (setP h a k v) = length h"
  by (simp add: setP_def split: option.splits node.splits)
lemma setP_other: "b \<noteq> a \<Longrightarrow> setP h a k v ! b = h ! b"
  by (simp add: setP_def split: option.splits node.splits)
lemma delP_length [simp]: "length (delP h a k) = length h"
  by (simp add: delP_def split: option.splits node.splits)
lemma delP_other: "b \<noteq> a \<Longrightarrow> delP h a k ! b = h ! b"
  by (simp add: delP_def split: option.splits node.splits)
lemma delP_self: "a < length h \<Longrightarrow> delP h a k ! a = dropKeys {k} (h ! a)"
  by (auto simp: delP_def nodeAt_def split: option.splits node.splits)
lemma delP_frame: "frame A h (delP h a k)"
  unfolding frame_def
proof (intro conjI ballI impI)
  fix b assume "b \<in> A" "b < length h"
  show "shrunk (h ! b) (delP h a k ! b)"
  proof (cases "b = a")
    case True
    with \<open>b < length h\<close> show ?thesis by (auto simp: delP_self shrunk_def)
  next
    case False
    then show ?thesis by (simp add: delP_other)
  qed
qed simp

definition same_upto :: "heap \<Rightarrow> heap \<Rightarrow> bool" where
  "same_upto h h' = (length h \<le> length h' \<and> (\<forall>b < length h. h' ! b = h ! b))"

lemma inlineParameter_same: "inlineParameter spec param h = Inr (v, h') \<Longrightarrow> same_upto h h'"
  by (auto simp: inlineParameter_def bindE_eq_Inr same_upto_def Let_def alloc_def nth_append
      split: if_splits val.splits)

lemma same_upto_trans: "same_upto a b \<Longrightarrow> same_upto b c \<Longrightarrow> same_upto a c"
  by (auto simp: same_upto_def)

lemma mapParameters_same: "mapParameters spec ps h = Inr (vs, h') \<Longrightarrow> same_upto h h'"
proof (induction ps arbitrary: h vs h')
  case Nil
  then show ?case by (simp add: same_upto_def)
next
  case (Cons p ps)
  then show ?case
    by (auto simp: bindE_eq_Inr dest!: inlineParameter_same intro: same_upto_trans)
qed

lemma adoptOperation_frame:
  assumes "adoptOperation spec eo operation h = Inr h'"
  shows "\<exists>q. operation = VRef q \<and> length h \<le> length h' \<and> (\<forall>b < length h. b \<noteq> q \<longrightarrow> h' ! b = h ! b)"
proof -
  from assms obtain q where op: "operation = VRef q"
    by (auto simp: adoptOperation_def split: val.splits)
  define h1 where "h1 = setP h q ''operationId'' (toolName eo)"
  define h2 where "h2 = (if \<not> truthy (jsGet h1 operation ''description'')
                          \<and> truthy (jsGet h1 operation ''summary'')
                       then setP h1 q ''description'' (jsGet h1 operation ''summary'') else h1)"
  have l2: "length h2 = length h" and s2: "\<And>b. b \<noteq> q \<Longrightarrow> h2 ! b = h ! b"
    by (auto simp: h2_def h1_def setP_other)
  show ?thesis
  proof (cases "truthy (jsGet h2 operation ''parameters'')")
    case False
    with assms op have "h' = h2"
      by (auto simp: adoptOperation_def Let_def h1_def h2_def split: if_splits)
    with l2 s2 op show ?thesis by auto
  next
    case True
    with assms op obtain vs h3 where
      m: "mapParameters spec (vals h2 (jsGet h2 operation ''parameters'')) h2 = Inr (vs, h3)"
      and h': "h' = setP (h3 @ [Arr vs]) q ''parameters'' (VRef (length h3))"
      by (auto simp: adoptOperation_def Let_def h1_def h2_def bindE_eq_Inr alloc_def split: if_splits)
    from mapParameters_same[OF m] have su: "same_upto h2 h3" .
    have "length h \<le> length h'" using su l2 by (simp add: h' same_upto_def)
    moreover have "\<forall>b < length h. b \<noteq> q \<longrightarrow> h' ! b = h ! b"
      using su l2 s2 by (auto simp: h' same_upto_def setP_other nth_append)
    ultimately show ?thesis using op by auto
  qed
qed


lemma shrunk_keys:
  assumes "shrunk (h ! a) (h' ! a)" "a < length h" "a < length h'"
  shows "set (keys h' (VRef a)) \<subseteq> set (keys h (VRef a))"
proof -
  from assms(1) obtain K where K: "h' ! a = dropKeys K (h ! a)" by (auto simp: shrunk_def)
  show ?thesis
    using assms(2,3) K by (cases "h ! a") (auto simp: keys_def entries_def nodeAt_def)
qed

lemma shrunk_entries:
  assumes "shrunk (h ! a) (h' ! a)" "a < length h" "a < length h'"
  shows "set (entries h' (VRef a)) \<subseteq> set (entries h (VRef a))"
proof -
  from assms(1) obtain K where K: "h' ! a = dropKeys K (h ! a)" by (auto simp: shrunk_def)
  show ?thesis
    using assms(2,3) K by (cases "h ! a") (auto simp: entries_def nodeAt_def)
qed

lemma delP_keys: "isObj h (VRef a) \<Longrightarrow> k \<notin> set (keys (delP h a k) (VRef a))"
  by (auto simp: delP_def keys_def entries_def nodeAt_def isObj_def split: option.splits node.splits if_splits)

lemma delP_isObj: "isObj (delP h a k) v = isObj h v"
  by (auto simp: delP_def isObj_def nodeAt_def nth_list_update split: option.splits node.splits val.splits)

lemma isObj_same: "isObj h (VRef a) \<Longrightarrow> length h \<le> length h' \<Longrightarrow> h' ! a = h ! a \<Longrightarrow> isObj h' (VRef a)"
  by (auto simp: isObj_def nodeAt_def split: if_splits)


lemma filterMethods_frame:
  assumes "filterMethods spec e item es h = Inr h'"
    and "\<And>m q. (m, VRef q) \<in> set es \<Longrightarrow> q \<notin> A"
  shows "frame A h h'"
  using assms
proof (induction es arbitrary: h)
  case Nil
  then show ?case by simp
next
  case (Cons x es)
  obtain m operation where x: "x = (m, operation)" by (cases x)
  show ?case
  proof (cases "find (\<lambda>ep. toLowerCase (ep_method ep) = m) e")
    case None
    with Cons.prems x have r: "filterMethods spec e item es (delP h item m) = Inr h'" by simp
    have "frame A (delP h item m) h'" using Cons.IH[OF r] Cons.prems(2) by auto
    then show ?thesis using delP_frame frame_trans by blast
  next
    case (Some eo)
    with Cons.prems x obtain h1 where a: "adoptOperation spec eo operation h = Inr h1"
      and r: "filterMethods spec e item es h1 = Inr h'" by (auto simp: bindE_eq_Inr)
    from adoptOperation_frame[OF a] obtain q where q: "operation = VRef q"
      "length h \<le> length h1" "\<forall>b < length h. b \<noteq> q \<longrightarrow> h1 ! b = h ! b" by auto
    have "q \<notin> A" using Cons.prems(2)[of m q] x q by simp
    then have "frame A h h1" using q by (intro frame_same) auto
    moreover have "frame A h1 h'" using Cons.IH[OF r] Cons.prems(2) by auto
    ultimately show ?thesis using frame_trans by blast
  qed
qed

lemma filterMethods_keys:
  assumes "filterMethods spec e item es h = Inr h'"
    and "\<And>m q. (m, VRef q) \<in> set es \<Longrightarrow> q \<notin> A"
    and "item \<in> A" "isObj h (VRef item)"
    and "k \<in> set (keys h' (VRef item))" "k \<in> fst ` set es"
  shows "\<exists>ep\<in>set e. toLowerCase (ep_method ep) = k"
  using assms
proof (induction es arbitrary: h)
  case Nil
  then show ?case by simp
next
  case (Cons x es)
  obtain m operation where x: "x = (m, operation)" by (cases x)
  show ?case
  proof (cases "find (\<lambda>ep. toLowerCase (ep_method ep) = m) e")
    case None
    with Cons.prems x have r: "filterMethods spec e item es (delP h item m) = Inr h'" by simp
    have ops: "\<And>m q. (m, VRef q) \<in> set es \<Longrightarrow> q \<notin> A" using Cons.prems(2) by auto
    have fr: "frame A (delP h item m) h'" using filterMethods_frame[OF r ops] .
    have "k \<noteq> m"
    proof
      assume "k = m"
      have il: "item < length h" using Cons.prems(4) by (auto simp: isObj_def nodeAt_def split: if_splits)
      have "shrunk (delP h item m ! item) (h' ! item)" "item < length h'"
        using fr Cons.prems(3) il by (auto simp: frame_def)
      from shrunk_keys[OF this(1) _ this(2)] Cons.prems(5) \<open>k = m\<close> il
      show False using delP_keys[OF Cons.prems(4), of m] by auto
    qed
    then have "k \<in> fst ` set es" using Cons.prems(6) x by auto
    moreover have "isObj (delP h item m) (VRef item)" using Cons.prems(4) by (simp add: delP_isObj)
    ultimately show ?thesis using Cons.IH[OF r ops Cons.prems(3) _ Cons.prems(5)] by simp
  next
    case (Some eo)
    with Cons.prems x obtain h1 where a: "adoptOperation spec eo operation h = Inr h1"
      and r: "filterMethods spec e item es h1 = Inr h'" by (auto simp: bindE_eq_Inr)
    have ops: "\<And>m q. (m, VRef q) \<in> set es \<Longrightarrow> q \<notin> A" using Cons.prems(2) by auto
    from adoptOperation_frame[OF a] obtain q where q: "operation = VRef q"
      "length h \<le> length h1" "\<forall>b < length h. b \<noteq> q \<longrightarrow> h1 ! b = h ! b" by auto
    have "q \<notin> A" using Cons.prems(2)[of m q] x q by simp
    then have "q \<noteq> item" using Cons.prems(3) by auto
    have il: "item < length h" using Cons.prems(4) by (auto simp: isObj_def nodeAt_def split: if_splits)
    have io: "isObj h1 (VRef item)"
      using isObj_same[OF Cons.prems(4) q(2)] q(3) il \<open>q \<noteq> item\<close> by auto
    show ?thesis
    proof (cases "k = m")
      case True
      from Some have "eo \<in> set e" "toLowerCase (ep_method eo) = m"
        by (auto simp: find_Some_iff)
      with True show ?thesis by auto
    next
      case False
      then have "k \<in> fst ` set es" using Cons.prems(6) x by auto
      then show ?thesis using Cons.IH[OF r ops Cons.prems(3) io Cons.prems(5)] by simp
    qed
  qed
qed


lemma keys_nonref: "(\<And>a. v \<noteq> VRef a) \<Longrightarrow> keys h' v = keys h v"
  by (cases v) (auto simp: keys_def entries_def)

lemma frame_keys:
  assumes "frame A h h'" "a \<in> A" "a < length h"
  shows "set (keys h' (VRef a)) \<subseteq> set (keys h (VRef a))"
  using assms shrunk_keys[of h a h'] by (auto simp: frame_def)

lemma frame_entries:
  assumes "frame A h h'" "a \<in> A" "a < length h"
  shows "set (entries h' (VRef a)) \<subseteq> set (entries h (VRef a))"
  using assms shrunk_entries[of h a h'] by (auto simp: frame_def)

lemma isObj_length: "isObj h (VRef a) \<Longrightarrow> a < length h"
  by (auto simp: isObj_def nodeAt_def split: if_splits)

lemma filterPathItem_frame:
  assumes "filterPathItem spec e v h = Inr h'"
    and "\<And>m q. (m, VRef q) \<in> set (entries h v) \<Longrightarrow> q \<notin> A"
  shows "frame A h h'"
  using assms
  by (cases v) (auto simp: filterPathItem_def split: if_splits intro: filterMethods_frame)

lemma filterPathItem_keys:
  assumes "filterPathItem spec e v h = Inr h'"
    and "\<And>m q. (m, VRef q) \<in> set (entries h v) \<Longrightarrow> q \<notin> A"
    and "\<And>a. v = VRef a \<Longrightarrow> a \<in> A"
    and "k \<in> set (keys h' v)"
  shows "\<exists>ep\<in>set e. toLowerCase (ep_method ep) = k"
proof (cases v)
  case (VRef a)
  with assms(1) have io: "isObj h (VRef a)" and r: "filterMethods spec e a (entries h v) h = Inr h'"
    by (auto simp: filterPathItem_def split: if_splits)
  have fr: "frame A h h'" using filterPathItem_frame[OF assms(1,2)] .
  have "k \<in> set (keys h (VRef a))"
    using frame_keys[OF fr assms(3)[OF VRef] isObj_length[OF io]] assms(4) VRef by auto
  then have "k \<in> fst ` set (entries h v)" by (simp add: keys_def VRef)
  from filterMethods_keys[OF r assms(2) assms(3)[OF VRef] io _ this] assms(4) VRef
  show ?thesis by simp
qed (use assms(1,4) in \<open>auto simp: filterPathItem_def keys_def entries_def indexed_def split: if_splits\<close>)

lemma lookupKey_filter:
  "lookupKey (filter (\<lambda>kv. fst kv \<notin> K) kvs) k = (if k \<in> K then VUndef else lookupKey kvs k)"
  by (induction kvs) (auto simp: lookupKey_def)

lemma shrunk_jsGet:
  assumes "shrunk (h ! r) (h' ! r)" "r < length h" "r < length h'"
  shows "jsGet h' (VRef r) k = jsGet h (VRef r) k \<or> jsGet h' (VRef r) k = VUndef"
proof -
  from assms(1) obtain K where K: "h' ! r = dropKeys K (h ! r)" by (auto simp: shrunk_def)
  show ?thesis using assms(2,3) K
    by (cases "h ! r") (auto simp: jsGet_def nodeAt_def lookupKey_filter)
qed

lemma deletePath_result:
  assumes "deletePath spec key h = Inr h'"
  shows "\<exists>p. jsGet h spec ''paths'' = VRef p \<and> isObj h (VRef p) \<and> h' = delP h p key"
  using assms by (auto simp: deletePath_def bindE_eq_Inr getP_eq_Inr split: val.splits if_splits)

lemma filterPaths_main:
  assumes "filterPaths spec endpoints es h = Inr h'"
    and "frame A h0 h"
    and "\<And>a m q. a \<in> I \<Longrightarrow> (m, VRef q) \<in> set (entries h0 (VRef a)) \<Longrightarrow> q \<notin> A"
    and "\<And>key a. (key, VRef a) \<in> set es \<Longrightarrow> a \<in> I"
    and "I \<subseteq> A" "\<And>a. a \<in> I \<Longrightarrow> a < length h0"
    and "spec = VRef r" "r \<in> A" "r < length h0"
    and "jsGet h0 spec ''paths'' = VRef p0" "p0 \<in> A" "p0 < length h0"
  shows "frame A h h' \<and>
    (\<forall>(key, v)\<in>set es.
       (filter (\<lambda>ep. pathPattern ep = key) endpoints \<noteq> [] \<longrightarrow>
          (\<forall>k\<in>set (keys h' v). \<exists>ep\<in>set endpoints. pathPattern ep = key \<and> toLowerCase (ep_method ep) = k))
     \<and> (filter (\<lambda>ep. pathPattern ep = key) endpoints = [] \<longrightarrow> key \<notin> set (keys h' (VRef p0))))"
  using assms(1,2,4)
proof (induction es arbitrary: h)
  case Nil
  then show ?case by simp
next
  case (Cons x es)
  obtain key v where x: "x = (key, v)" by (cases x)
  define e where "e = filter (\<lambda>ep. pathPattern ep = key) endpoints"
  have lenh: "length h0 \<le> length h" using Cons.prems(2) by (simp add: frame_def)
  have items: "\<And>key a. (key, VRef a) \<in> set es \<Longrightarrow> a \<in> I" using Cons.prems(3) by auto
  obtain h1 where step: "(if e = [] then deletePath spec key h else filterPathItem spec e v h) = Inr h1"
    and rest: "filterPaths spec endpoints es h1 = Inr h'"
    using Cons.prems(1) x by (auto simp: Let_def e_def bindE_eq_Inr split: if_splits)
  have ops: "\<And>m q. (m, VRef q) \<in> set (entries h v) \<Longrightarrow> q \<notin> A"
  proof -
    fix m q assume mq: "(m, VRef q) \<in> set (entries h v)"
    show "q \<notin> A"
    proof (cases v)
      case (VRef a)
      then have aI: "a \<in> I" using Cons.prems(3)[of key a] x by simp
      then have "(m, VRef q) \<in> set (entries h0 (VRef a))"
        using frame_entries[OF Cons.prems(2), of a] assms(5,6) mq VRef by auto
      then show ?thesis using assms(3)[OF aI] by simp
    next
      case (VStr s)
      with mq show ?thesis by (auto simp: entries_def indexed_def dest!: set_zip_rightD)
    qed (use mq in \<open>auto simp: entries_def\<close>)
  qed
  have fr1: "frame A h h1"
  proof (cases "e = []")
    case True
    with step deletePath_result[of spec key h h1] show ?thesis by (auto simp: delP_frame)
  next
    case False
    with step filterPathItem_frame[of spec e v h h1 A] ops show ?thesis by auto
  qed
  have fr01: "frame A h0 h1" using frame_trans[OF Cons.prems(2) fr1] .
  note IH = Cons.IH[OF rest fr01 items]
  have fr2: "frame A h1 h'" using IH by simp
  have len1: "length h \<le> length h1" using fr1 by (simp add: frame_def)
  have head: "(e \<noteq> [] \<longrightarrow>
          (\<forall>k\<in>set (keys h' v). \<exists>ep\<in>set endpoints. pathPattern ep = key \<and> toLowerCase (ep_method ep) = k))
     \<and> (e = [] \<longrightarrow> key \<notin> set (keys h' (VRef p0)))"
  proof (intro conjI impI ballI)
    fix k assume ne: "e \<noteq> []" and k: "k \<in> set (keys h' v)"
    have k1: "k \<in> set (keys h1 v)"
    proof (cases v)
      case (VRef a)
      then have "a \<in> I" using Cons.prems(3)[of key a] x by simp
      then have "a \<in> A" "a < length h1" using assms(5,6) lenh len1 by force+
      from frame_keys[OF fr2 this] k VRef show ?thesis by auto
    qed (use k in \<open>auto simp: keys_def entries_def\<close>)
    have va: "\<And>a. v = VRef a \<Longrightarrow> a \<in> A" using Cons.prems(3)[of key] x assms(5) by auto
    have fpi: "filterPathItem spec e v h = Inr h1" using step ne by simp
    have "\<exists>ep\<in>set e. toLowerCase (ep_method ep) = k"
      by (rule filterPathItem_keys[where A=A, OF fpi _ va k1]) (use ops in blast)+
    then obtain ep where "ep \<in> set e" "toLowerCase (ep_method ep) = k" by auto
    then show "\<exists>ep\<in>set endpoints. pathPattern ep = key \<and> toLowerCase (ep_method ep) = k"
      by (auto simp: e_def)
  next
    assume em: "e = []"
    with step deletePath_result[of spec key h h1] obtain p where
      p: "jsGet h spec ''paths'' = VRef p" "isObj h (VRef p)" "h1 = delP h p key" by auto
    have "shrunk (h0 ! r) (h ! r)" using Cons.prems(2) assms(8,9) by (auto simp: frame_def)
    from shrunk_jsGet[OF this assms(9), of "''paths''"] lenh assms(7,9,10) p(1)
    have "p = p0" by auto
    then have "key \<notin> set (keys h1 (VRef p0))" using delP_keys[OF p(2), of key] p(3) by simp
    moreover have "p0 < length h1" using assms(12) lenh len1 by simp
    ultimately show "key \<notin> set (keys h' (VRef p0))"
      using frame_keys[OF fr2 assms(11)] by auto
  qed
  show ?case
  proof (intro conjI)
    show "frame A h h'" using frame_trans[OF fr1 fr2] .
    show "\<forall>(key, v)\<in>set (x # es).
       (filter (\<lambda>ep. pathPattern ep = key) endpoints \<noteq> [] \<longrightarrow>
          (\<forall>k\<in>set (keys h' v). \<exists>ep\<in>set endpoints. pathPattern ep = key \<and> toLowerCase (ep_method ep) = k))
     \<and> (filter (\<lambda>ep. pathPattern ep = key) endpoints = [] \<longrightarrow> key \<notin> set (keys h' (VRef p0)))"
      using head IH x unfolding e_def by auto
  qed
qed


lemma in_pathItemAddrs:
  "(key, VRef a) \<in> set (entries h (jsGet h spec ''paths'')) \<Longrightarrow> a \<in> set (pathItemAddrs h spec)"
  by (force simp: pathItemAddrs_def)

lemma in_operationAddrs:
  "a \<in> set (pathItemAddrs h spec) \<Longrightarrow> (m, VRef q) \<in> set (entries h (VRef a))
     \<Longrightarrow> q \<in> set (operationAddrs h spec)"
  by (force simp: operationAddrs_def)

lemma endpointFilter_keys:
  assumes run: "endpointFilter spec endpoints h = Inr h'"
    and apart: "operationsApart h spec"
    and item: "(path, item) \<in> set (entries h' (jsGet h' spec ''paths''))"
    and k: "k \<in> set (keys h' item)"
  shows "\<exists>ep\<in>set endpoints. pathPattern ep = path \<and> toLowerCase (ep_method ep) = k"
proof -
  define A where "A = protectedAddrs h spec"
  define I where "I = set (pathItemAddrs h spec)"
  from run obtain p0 where p0: "jsGet h spec ''paths'' = VRef p0" "isObj h (VRef p0)"
    and fp: "filterPaths spec endpoints (entries h (VRef p0)) h = Inr h'"
    by (auto simp: endpointFilter_def bindE_eq_Inr getP_eq_Inr isObj_def split: if_splits val.splits)
  from p0(1) obtain r where r: "spec = VRef r" "r < length h"
    by (cases spec) (auto simp: jsGet_def nodeAt_def nullish_def split: if_splits option.splits)
  have rA: "r \<in> A" and pA: "p0 \<in> A" and IA: "I \<subseteq> A"
    using r p0 by (auto simp: A_def I_def protectedAddrs_def)
  have pl: "p0 < length h" using isObj_length[OF p0(2)] .
  have Il: "\<And>a. a \<in> I \<Longrightarrow> a < length h"
    using apart by (auto simp: operationsApart_def I_def list_all_iff)
  have ops: "\<And>a m q. a \<in> I \<Longrightarrow> (m, VRef q) \<in> set (entries h (VRef a)) \<Longrightarrow> q \<notin> A"
    using apart in_operationAddrs[of _ h spec] by (auto simp: operationsApart_def I_def A_def)
  have items: "\<And>key a. (key, VRef a) \<in> set (entries h (VRef p0)) \<Longrightarrow> a \<in> I"
    using in_pathItemAddrs[of _ _ h spec] p0(1) by (auto simp: I_def)
  have main: "frame A h h' \<and>
    (\<forall>(key, v)\<in>set (entries h (VRef p0)).
       (filter (\<lambda>ep. pathPattern ep = key) endpoints \<noteq> [] \<longrightarrow>
          (\<forall>k\<in>set (keys h' v). \<exists>ep\<in>set endpoints. pathPattern ep = key \<and> toLowerCase (ep_method ep) = k))
     \<and> (filter (\<lambda>ep. pathPattern ep = key) endpoints = [] \<longrightarrow> key \<notin> set (keys h' (VRef p0))))"
    by (rule filterPaths_main[where I=I, OF fp frame_refl _ _ IA _ r(1) rA r(2) p0(1) pA pl])
       (use ops items Il in blast)+
  have fr: "frame A h h'" using main by simp
  have lh: "length h \<le> length h'" using fr by (simp add: frame_def)
  have "shrunk (h ! r) (h' ! r)" using fr rA r(2) by (auto simp: frame_def)
  from shrunk_jsGet[OF this r(2), of "''paths''"] lh r p0(1)
  have "jsGet h' spec ''paths'' = VRef p0 \<or> jsGet h' spec ''paths'' = VUndef" by auto
  with item have p': "jsGet h' spec ''paths'' = VRef p0" by (auto simp: entries_def)
  have in0: "(path, item) \<in> set (entries h (VRef p0))"
    using frame_entries[OF fr pA pl] item p' by auto
  have "path \<in> set (keys h' (VRef p0))" using item p' by (force simp: keys_def)
  with main in0 have "filter (\<lambda>ep. pathPattern ep = path) endpoints \<noteq> []" by auto
  with main in0 k show ?thesis by auto
qed


text \<open>
  C10. After the endpoint filter has returned, every key that remains in a path item of the
  paths map is the lower-cased method of an enabled allow-list record for that path. Every
  other entry of the path item is deleted, whether or not it names an HTTP method: the
  shared \<^verbatim>\<open>parameters\<close> array, \<^verbatim>\<open>summary\<close> and \<^verbatim>\<open>description\<close> go the same way. The operations
  are assumed to be objects of their own (no operation object is also a path item, the paths
  map or the document root), as in every document that is a tree.
\<close>

theorem endpointFilter_keeps_only_allowed:
  assumes run: "endpointFilter spec (enabledEndpoints allEndpoints) h = Inr h'"
    and apart: "operationsApart h spec"
    and item: "(path, item) \<in> set (entries h' (jsGet h' spec ''paths''))"
    and k: "k \<in> set (keys h' item)"
  shows "\<exists>ep\<in>set allEndpoints.
           \<not> disabled ep \<and> pathPattern ep = path \<and> toLowerCase (ep_method ep) = k"
  using endpointFilter_keys[OF run apart item k] by (auto simp: enabledEndpoints_def)

theorem endpointFilter_keeps_only_allowed_witness:
  "endpointFilter filterRoot (enabledEndpoints filterEndpoints) filterHeap = Inr filterResult
   \<and> operationsApart filterHeap filterRoot
   \<and> (''/test'', VRef 3) \<in> set (entries filterResult (jsGet filterResult filterRoot ''paths''))
   \<and> keys filterResult (VRef 3) = [''get'']
   \<and> (\<exists>ep\<in>set filterEndpoints.
          \<not> disabled ep \<and> pathPattern ep = ''/test'' \<and> toLowerCase (ep_method ep) = ''get'')"
proof -
  have run: "endpointFilter filterRoot (enabledEndpoints filterEndpoints) filterHeap = Inr filterResult"
    by code_simp
  have apart: "operationsApart filterHeap filterRoot"
    by code_simp
  have item: "(''/test'', VRef 3) \<in> set (entries filterResult (jsGet filterResult filterRoot ''paths''))"
    by code_simp
  have ks: "keys filterResult (VRef 3) = [''get'']"
    by code_simp
  then have k: "''get'' \<in> set (keys filterResult (VRef 3))"
    by simp
  from endpointFilter_keeps_only_allowed[OF run apart item k] run apart item ks
  show ?thesis by blast
qed

section \<open>Properties of the structural cleaner\<close>




lemma setP_isObj [simp]: "isObj (setP h a k v) x = isObj h x"
  by (auto simp: setP_def isObj_def nodeAt_def nth_list_update split: option.splits node.splits val.splits)











text \<open>
  C8 fails on the code. The priority list has 26 names while the threshold is 25: a schema
  whose properties are the 26 priority names is over the threshold, every property is kept
  by the priority pass, and the reduced schema still has 26 properties.
\<close>

theorem reduceProperties_keeps_26:
  "shouldReduceProperties allPriorityHeap (VRef 27)
   \<and> length (keys allPriorityHeap (jsGet allPriorityHeap (VRef 27) ''properties'')) = 26
   \<and> (case reduceProperties 27 allPriorityHeap of
         Inr h' \<Rightarrow> length (keys h' (jsGet h' (VRef 27) ''properties'')) = 26
                  \<and> jsGet h' (VRef 27) ''description''
                      = VStr ''[Note: Simplified from 26 properties to 25 most common ones]''
       | Inl e \<Rightarrow> False)"
  by code_simp

section \<open>Invariants of the traversal\<close>

text \<open>
  The traversal of the normalizer changes the state in four places only. A property of
  states \<open>Q\<close> and a relation \<open>R\<close> between the state before and after that these four changes
  respect are respected by \<^verbatim>\<open>processSchema\<close> at every depth, by every entry point and by the
  whole of \<^verbatim>\<open>normalizeSchemaRefs\<close>.
\<close>

lemma preservesD: "preserves Q R f \<Longrightarrow> Q s \<Longrightarrow> f s = Inr s' \<Longrightarrow> Q s' \<and> R s s'"
  by (auto simp: preserves_def)

lemma preservesI: "(\<And>s s'. Q s \<Longrightarrow> f s = Inr s' \<Longrightarrow> Q s' \<and> R s s') \<Longrightarrow> preserves Q R f"
  by (auto simp: preserves_def)

lemma preserves_Inr: "orderly R \<Longrightarrow> preserves Q R Inr"
  by (auto simp: preserves_def orderly_def)

lemma preserves_bind:
  assumes "orderly R" "preserves Q R f" "\<And>x. preserves Q R (g x)"
  shows "preserves Q R (\<lambda>s. bindE (f s) (\<lambda>s1. g s s1))"
proof (rule preservesI)
  fix s s' assume Q: "Q s" and r: "bindE (f s) (\<lambda>s1. g s s1) = Inr s'"
  then obtain s1 where 1: "f s = Inr s1" and 2: "g s s1 = Inr s'"
    by (auto simp: bindE_eq_Inr)
  from preservesD[OF assms(2) Q 1] have "Q s1" "R s s1" by auto
  moreover from preservesD[OF assms(3) \<open>Q s1\<close> 2] have "Q s'" "R s1 s'" by auto
  ultimately show "Q s' \<and> R s s'" using assms(1) by (auto simp: orderly_def)
qed







declare shouldHoistRef.simps(1) [simp del]














lemma preserves_skip: "orderly R \<Longrightarrow> preserves Q R (\<lambda>s. Inr s)"
  by (auto simp: preserves_def orderly_def)





lemma orderly_refl: "orderly R \<Longrightarrow> R a a"
  unfolding orderly_def by blast




















section \<open>Properties of the reference normalizer\<close>

















section \<open>Properties of the pipeline\<close>





end
